theory Spec2Isabelle
  imports Complex_Main "HOL-Library.Multiset"
begin

section \<open>Python strings\<close>

text \<open>
  A Python \<open>str\<close> is modelled as a HOL \<open>string\<close>; a \<open>char\<close> stands for the code
  point of the same number, so the model covers the strings whose code points are
  below 256. The three library functions the programs call on strings
  (\<open>str.strip\<close>, \<open>str.lower\<close>, \<open>str.join\<close>) are written out for that range.
\<close>

definition py_isspace :: "char \<Rightarrow> bool" where
  \<comment> \<open>the code points below 256 that \<open>str.strip()\<close> removes:
      TAB..CR, FS..US, SPACE, NEL, NBSP\<close>
  "py_isspace c =
     (let n = (of_char c :: nat)
      in (9 \<le> n \<and> n \<le> 13) \<or> (28 \<le> n \<and> n \<le> 32) \<or> n = 133 \<or> n = 160)"

definition strip :: "string \<Rightarrow> string" where
  "strip s = rev (dropWhile py_isspace (rev (dropWhile py_isspace s)))"

definition lower_char :: "char \<Rightarrow> char" where
  \<comment> \<open>\<open>A..Z\<close> and the Latin-1 capitals \<open>U+00C0..U+00DE\<close> (but not the
      multiplication sign \<open>U+00D7\<close>) move up by 32\<close>
  "lower_char c =
     (let n = (of_char c :: nat)
      in if (65 \<le> n \<and> n \<le> 90) \<or> (192 \<le> n \<and> n \<le> 222 \<and> n \<noteq> 215)
         then char_of (n + 32) else c)"

definition lower :: "string \<Rightarrow> string" where
  "lower s = map lower_char s"

fun join :: "string \<Rightarrow> string list \<Rightarrow> string" where
  "join sep [] = []"
| "join sep [x] = x"
| "join sep (x # y # ys) = x @ sep @ join sep (y # ys)"

section \<open>The tagging pipeline: \<^verbatim>\<open>caption.py\<close>\<close>

subsection \<open>CaptionBuilder: \<open>build_caption\<close>\<close>

text \<open>
  \<^verbatim>\<open>
  def build_caption(tags):
      if not tags:
          return "photo"
      lead = tags[0]
      extras = tags[1:5]
      if not extras:
          return f"photo of {lead}"
      return f"photo of {lead} with {', '.join(extras)}"
  \<close>
  The slice \<open>tags[1:5]\<close> never raises: it is \<open>take 4 (drop 1 tags)\<close>.
\<close>

definition build_caption :: "string list \<Rightarrow> string" where
  "build_caption tags =
     (case tags of
        [] \<Rightarrow> ''photo''
      | lead # _ \<Rightarrow>
          (let extras = take 4 (drop 1 tags)
           in if extras = [] then ''photo of '' @ lead
              else ''photo of '' @ lead @ '' with '' @ join '', '' extras))"

subsection \<open>Constants\<close>

definition TOP_K :: nat where
  "TOP_K = 12"

definition MIN_SCORE :: real where
  \<comment> \<open>the literal \<open>0.03\<close>: the double nearest to it, as the real number it denotes\<close>
  "MIN_SCORE = 1080863910568919 / 2 ^ 55"

definition CANDIDATE_TAGS :: "string list" where
  "CANDIDATE_TAGS = [
      ''person'', ''people'', ''man'', ''woman'', ''child'', ''baby'',
      ''family'', ''couple'', ''friends'', ''group'', ''portrait'', ''selfie'',
      ''wedding'', ''engagement'', ''kiss'', ''hug'', ''smiling'', ''laughing'',
      ''dancing'', ''walking'', ''running'', ''jumping'', ''sitting'', ''standing'',
      ''eating'', ''drinking'', ''cooking'', ''playing'', ''working'', ''travel'',
      ''city'', ''street'', ''building'', ''architecture'', ''bridge'', ''road'',
      ''car'', ''bus'', ''train'', ''bicycle'', ''boat'', ''ship'',
      ''airplane'', ''beach'', ''ocean'', ''sea'', ''lake'', ''river'',
      ''water'', ''wave'', ''mountain'', ''forest'', ''tree'', ''flower'',
      ''garden'', ''park'', ''nature'', ''landscape'', ''sky'', ''cloud'',
      ''sun'', ''sunset'', ''sunrise'', ''night'', ''day'', ''golden hour'',
      ''rain'', ''snow'', ''fog'', ''storm'', ''indoors'', ''outdoors'',
      ''restaurant'', ''cafe'', ''kitchen'', ''bedroom'', ''living room'', ''office'',
      ''school'', ''store'', ''food'', ''drink'', ''coffee'', ''tea'',
      ''dessert'', ''fruit'', ''dog'', ''cat'', ''bird'', ''horse'',
      ''sports'', ''soccer'', ''basketball'', ''tennis'', ''swimming'', ''hiking'',
      ''camping'', ''festival'', ''concert'', ''party'', ''documentary'', ''film'',
      ''vintage'', ''black and white'', ''color'', ''fashion'', ''close-up'', ''wide shot'',
      ''crowd'', ''market'']"

definition STOPWORDS :: "string set" where
  "STOPWORDS = {''a'', ''an'', ''the'', ''of'', ''and'', ''in'', ''at'', ''on'', ''for'',
                ''with'', ''to'', ''from'', ''by'', ''scene'', ''photo''}"

subsection \<open>TokenExtractor: \<open>extract_tokens\<close>\<close>

text \<open>
  \<^verbatim>\<open>
  def extract_tokens(caption):
      words = re.findall(r"[a-zA-Z0-9]+", caption.lower())
      out = []
      seen = set()
      for w in words:
          if len(w) <= 2 or w in STOPWORDS:
              continue
          if w not in seen:
              out.append(w)
              seen.add(w)
      return out
  \<close>
  \<open>re.findall\<close> is the standard library's; for this pattern it scans from the left,
  skips the characters outside the class, and takes each match as long as it can be.
\<close>

definition is_alnum :: "char \<Rightarrow> bool" where
  \<comment> \<open>the character class \<open>[a-zA-Z0-9]\<close>\<close>
  "is_alnum c =
     (let n = (of_char c :: nat)
      in (97 \<le> n \<and> n \<le> 122) \<or> (65 \<le> n \<and> n \<le> 90) \<or> (48 \<le> n \<and> n \<le> 57))"

function findall_alnum :: "string \<Rightarrow> string list" where
  "findall_alnum [] = []"
| "findall_alnum (c # cs) =
     (if is_alnum c
      then takeWhile is_alnum (c # cs) # findall_alnum (dropWhile is_alnum cs)
      else findall_alnum cs)"
  by pat_completeness auto
termination
  by (relation "measure length") (auto simp: less_Suc_eq_le length_dropWhile_le)

fun extract_loop :: "string list \<Rightarrow> string list \<Rightarrow> string set \<Rightarrow> string list" where
  "extract_loop [] out seen = out"
| "extract_loop (w # words) out seen =
     (if length w \<le> 2 \<or> w \<in> STOPWORDS then extract_loop words out seen
      else if w \<notin> seen then extract_loop words (out @ [w]) (insert w seen)
      else extract_loop words out seen)"

definition extract_tokens :: "string \<Rightarrow> string list" where
  "extract_tokens caption = extract_loop (findall_alnum (lower caption)) [] {}"

subsection \<open>TagSelector: the selection loop of \<open>main\<close>\<close>

text \<open>
  \<^verbatim>\<open>
  sorted_idx = torch.argsort(probs, descending=True).tolist()
  selected = []
  for idx in sorted_idx:
      score = float(probs[idx].item())
      if len(selected) >= TOP_K:
          break
      if score < MIN_SCORE and len(selected) >= 5:
          break
      selected.append((CANDIDATE_TAGS[idx], score))
  tags = [tag for tag, _ in selected]
  \<close>
  A score is the real number the float denotes (no NaN). \<open>torch.argsort\<close> is the
  library's: called as here, without \<open>stable=True\<close>, it promises the indices
  \<open>0..n-1\<close>, each once, in an order along which the values do not increase, and
  nothing about the order of equal values. The loop is therefore modelled on any
  index list; \<open>is_argsort_descending\<close> says when a list is one the call may return.
  An index outside the tensor or the vocabulary raises.
\<close>

datatype py_error = IndexError

definition is_argsort_descending :: "real list \<Rightarrow> nat list \<Rightarrow> bool" where
  "is_argsort_descending probs sorted_idx \<longleftrightarrow>
     sort sorted_idx = [0 ..< length probs] \<and>
     sorted_wrt (\<lambda>i j. probs ! i \<ge> probs ! j) sorted_idx"

fun select_loop ::
  "string list \<Rightarrow> real list \<Rightarrow> nat list \<Rightarrow> (string \<times> real) list
     \<Rightarrow> py_error + (string \<times> real) list" where
  "select_loop labels probs [] selected = Inr selected"
| "select_loop labels probs (idx # rest) selected =
     (if idx \<ge> length probs then Inl IndexError
      else let score = probs ! idx
           in if length selected \<ge> TOP_K then Inr selected
              else if score < MIN_SCORE \<and> length selected \<ge> 5 then Inr selected
              else if idx \<ge> length labels then Inl IndexError
              else select_loop labels probs rest (selected @ [(labels ! idx, score)]))"

definition select :: "string list \<Rightarrow> real list \<Rightarrow> nat list \<Rightarrow> py_error + (string \<times> real) list" where
  "select labels probs sorted_idx = select_loop labels probs sorted_idx []"

subsection \<open>TagMerger: the merging loop of \<open>main\<close>\<close>

text \<open>
  \<^verbatim>\<open>
  merged = []
  seen = set()
  for tag in tags + extract_tokens(caption):
      t = tag.strip().lower()
      if not t or t in seen:
          continue
      seen.add(t)
      merged.append(t)
  print(json.dumps({"caption": caption, "tags": merged[:24]}))
  \<close>
\<close>

fun merge_loop :: "string list \<Rightarrow> string list \<Rightarrow> string set \<Rightarrow> string list" where
  "merge_loop [] merged seen = merged"
| "merge_loop (tag # rest) merged seen =
     (let t = lower (strip tag)
      in if t = [] \<or> t \<in> seen then merge_loop rest merged seen
         else merge_loop rest (merged @ [t]) (insert t seen))"

definition merge_tags :: "string list \<Rightarrow> string list \<Rightarrow> string list" where
  "merge_tags tags extra = take 24 (merge_loop (tags @ extra) [] {})"

subsection \<open>The pipeline of \<open>main\<close> after scoring\<close>

definition caption_main :: "real list \<Rightarrow> nat list \<Rightarrow> py_error + (string \<times> string list)" where
  "caption_main probs sorted_idx =
     (case select CANDIDATE_TAGS probs sorted_idx of
        Inl e \<Rightarrow> Inl e
      | Inr selected \<Rightarrow>
          (let tags = map fst selected;
               caption = build_caption tags
           in Inr (caption, merge_tags tags (extract_tokens caption))))"

section \<open>The request server: \<^verbatim>\<open>embed_text_server.py\<close>\<close>

text \<open>
  \<^verbatim>\<open>
  def write_message(obj: dict) -> None:
      sys.stdout.write(json.dumps(obj) + "\n")
      sys.stdout.flush()

  def main() -> int:
      for line in sys.stdin:
          line = line.strip()
          if not line:
              continue
          try:
              msg = json.loads(line)
              req_id = msg.get("id")
              query = str(msg.get("q", "")).strip()
              if not query:
                  write_message({"id": req_id, "error": "empty query"})
                  continue
              vector = embed_text(query)
              write_message({"id": req_id, "vector": vector})
          except Exception as exc:  # noqa: BLE001
              write_message({"id": None, "error": str(exc)})
      return 0
  \<close>
  Standard input is the list of what the iteration over \<open>sys.stdin\<close> does, read after
  read: it yields a decoded line (\<open>Line\<close>), or the read itself raises (\<open>ReadRaises\<close>,
  for instance on bytes that do not decode). That read is outside the \<open>try\<close>, so the
  exception leaves \<open>main\<close> and nothing after it is read. Standard output is the list of
  the messages written; \<open>sys.stdout.write\<close> and \<open>flush\<close> are taken to succeed. The run
  ends by returning 0 at the end of the input, or with the exception (\<open>Raised\<close>).

  A value read by \<open>json.loads\<close> is a \<open>json\<close>: Python's \<open>None\<close> is \<open>JNull\<close>, a dict is the
  list of its items (one per key). A message is \<open>VectorResp id vector\<close> for
  \<open>{"id": id, "vector": vector}\<close> and \<open>ErrorResp id text\<close> for \<open>{"id": id, "error": text}\<close>.

  Four things the loop calls are not the repository's and are parameters of the
  model: \<open>json.loads\<close>, which returns a value or raises (\<open>Inl\<close>, with \<open>str\<close> of the
  exception); \<open>str\<close> on numbers, lists and dicts (\<open>py_repr\<close>; on \<open>None\<close>, booleans and
  strings it is written out in \<open>py_str\<close>); the encoder behind \<open>embed_text\<close>, which
  returns a vector or raises an \<open>Exception\<close> (\<open>Inl\<close>, with its text); and
  \<open>json.dumps\<close>, which raises on a message it cannot encode. The error text and the
  vector of a message are a string and a list of floats, which it always encodes, so
  whether it raises depends on the request's id only (an id nested too deeply, say):
  \<open>dumps_error id\<close> is the text of that exception, or \<open>None\<close> when the message is
  encoded. The two calls of \<open>write_message\<close> inside the \<open>try\<close> can therefore raise,
  and the handler catches that as it catches everything else; the handler's own
  message has the id \<open>None\<close> and is always encoded.
  Calling \<open>.get\<close> on a value that is not a dict raises \<open>AttributeError\<close>, whose text
  is \<open>attribute_error\<close>.
\<close>

datatype json =
    JNull | JBool bool | JInt int | JFloat real | JStr string
  | JArr "json list" | JObj "(string \<times> json) list"

datatype response =
    VectorResp (response_id: json) "real list"
  | ErrorResp (response_id: json) string

record externals =
  json_loads :: "string \<Rightarrow> string + json"
  py_repr :: "json \<Rightarrow> string"
  embed_text :: "string \<Rightarrow> string + real list"
  dumps_error :: "json \<Rightarrow> string option"

definition dict_get :: "(string \<times> json) list \<Rightarrow> string \<Rightarrow> json \<Rightarrow> json" where
  "dict_get d k dflt = (case map_of d k of None \<Rightarrow> dflt | Some v \<Rightarrow> v)"

fun py_str :: "(json \<Rightarrow> string) \<Rightarrow> json \<Rightarrow> string" where
  "py_str repr JNull = ''None''"
| "py_str repr (JBool b) = (if b then ''True'' else ''False'')"
| "py_str repr (JStr s) = s"
| "py_str repr v = repr v"

fun type_name :: "json \<Rightarrow> string" where
  "type_name JNull = ''NoneType''"
| "type_name (JBool b) = ''bool''"
| "type_name (JInt i) = ''int''"
| "type_name (JFloat x) = ''float''"
| "type_name (JStr s) = ''str''"
| "type_name (JArr xs) = ''list''"
| "type_name (JObj d) = ''dict''"

definition attribute_error :: "json \<Rightarrow> string" where
  "attribute_error v =
     [CHR 0x27] @ type_name v @ [CHR 0x27] @ '' object has no attribute ''
       @ [CHR 0x27] @ ''get'' @ [CHR 0x27]"

fun is_dict :: "json \<Rightarrow> bool" where
  "is_dict (JObj d) = True"
| "is_dict v = False"

definition write_message :: "externals \<Rightarrow> response \<Rightarrow> string + response" where
  \<comment> \<open>inside the \<open>try\<close>: the message is written (\<open>Inr\<close>) or \<open>json.dumps\<close> raises (\<open>Inl\<close>)\<close>
  "write_message ext obj =
     (case dumps_error ext (response_id obj) of
        Some exc \<Rightarrow> Inl exc
      | None \<Rightarrow> Inr obj)"

definition request_query :: "externals \<Rightarrow> (string \<times> json) list \<Rightarrow> string" where
  \<comment> \<open>\<open>str(msg.get("q", "")).strip()\<close>\<close>
  "request_query ext d = strip (py_str (py_repr ext) (dict_get d ''q'' (JStr [])))"

definition try_body :: "externals \<Rightarrow> string \<Rightarrow> string + response" where
  \<comment> \<open>the body of the \<open>try\<close>: the message it wrote, or the text of the exception raised in it\<close>
  "try_body ext line =
     (case json_loads ext line of
        Inl exc \<Rightarrow> Inl exc
      | Inr msg \<Rightarrow>
          (case msg of
             JObj d \<Rightarrow>
               (let req_id = dict_get d ''id'' JNull;
                    query = request_query ext d
                in if query = [] then write_message ext (ErrorResp req_id ''empty query'')
                   else (case embed_text ext query of
                           Inl exc \<Rightarrow> Inl exc
                         | Inr vector \<Rightarrow> write_message ext (VectorResp req_id vector)))
           | _ \<Rightarrow> Inl (attribute_error msg)))"

definition handle_line :: "externals \<Rightarrow> string \<Rightarrow> response list" where
  "handle_line ext raw =
     (let line = strip raw
      in if line = [] then []
         else (case try_body ext line of
                 Inr r \<Rightarrow> [r]
               | Inl exc \<Rightarrow> [ErrorResp JNull exc]))"

datatype read = Line string | ReadRaises string

datatype outcome = Returned int | Raised string

fun main_loop :: "externals \<Rightarrow> read list \<Rightarrow> response list \<Rightarrow> response list \<times> outcome" where
  "main_loop ext [] out = (out, Returned 0)"
| "main_loop ext (ReadRaises exc # rest) out = (out, Raised exc)"
| "main_loop ext (Line line # rest) out = main_loop ext rest (out @ handle_line ext line)"

definition server_main :: "externals \<Rightarrow> read list \<Rightarrow> response list \<times> outcome" where
  "server_main ext stdin = main_loop ext stdin []"

section \<open>The specification's vocabulary\<close>

text \<open>
  Two notions the specification uses in words, defined on their own so that the loops
  above can be compared with them: keeping the first occurrence of every element of
  a list, and the tokens TokenExtractor keeps.
\<close>

primrec dedup_first :: "'a list \<Rightarrow> 'a list" where
  "dedup_first [] = []"
| "dedup_first (x # xs) = x # filter (\<lambda>y. y \<noteq> x) (dedup_first xs)"

definition keep_token :: "string \<Rightarrow> bool" where
  "keep_token w \<longleftrightarrow> \<not> (length w \<le> 2 \<or> w \<in> STOPWORDS)"

text \<open>
  For TagSelector: the stable descending sort of the indices that the specification
  describes, and the number of tags its stopping rule yields (every candidate up to
  the fifth; from the sixth on, candidates whose score is not below \<open>MIN_SCORE\<close>;
  never more than \<open>TOP_K\<close>).
\<close>

definition stable_argsort :: "real list \<Rightarrow> nat list" where
  "stable_argsort probs = sort_key (\<lambda>i. - (probs ! i)) [0 ..< length probs]"

definition selected_count :: "real list \<Rightarrow> nat list \<Rightarrow> nat" where
  "selected_count probs sorted_idx =
     min (length sorted_idx)
       (min TOP_K (5 + length (takeWhile (\<lambda>i. \<not> probs ! i < MIN_SCORE) (drop 5 sorted_idx))))"

section \<open>Sample collaborators\<close>

text \<open>
  Concrete stand-ins for the server's collaborators, used by the instances below:
  what \<open>json.loads\<close> returns on three request lines (and the message of its
  \<open>JSONDecodeError\<close> on text that is not JSON), an encoder that answers, and one
  that raises. None of the sample queries is a number, a list or a dict, so
  \<open>demo_repr\<close> is never consulted; the sample ids are numbers, which \<open>json.dumps\<close>
  encodes.
\<close>

definition demo_loads :: "string \<Rightarrow> string + json" where
  \<open>demo_loads line =
     (if line = ''{"id":1,"q":"sunset over water"}''
        then Inr (JObj [(''id'', JInt 1), (''q'', JStr ''sunset over water'')])
      else if line = ''{"id":7,"q":null}''
        then Inr (JObj [(''id'', JInt 7), (''q'', JNull)])
      else if line = ''[1, 2]''
        then Inr (JArr [JInt 1, JInt 2])
      else Inl ''Expecting value: line 1 column 1 (char 0)'')\<close>

definition demo_repr :: "json \<Rightarrow> string" where
  "demo_repr v = ''0''"

definition demo_dumps_error :: "json \<Rightarrow> string option" where
  "demo_dumps_error v = None"

definition unit_encoder :: "string \<Rightarrow> string + real list" where
  "unit_encoder query = Inr [3/5, 4/5]"

definition failing_encoder :: "string \<Rightarrow> string + real list" where
  "failing_encoder query = Inl ''out of memory''"

definition demo_server :: externals where
  "demo_server = \<lparr>json_loads = demo_loads, py_repr = demo_repr, embed_text = unit_encoder,
                   dumps_error = demo_dumps_error\<rparr>"

definition demo_server_failing :: externals where
  "demo_server_failing = \<lparr>json_loads = demo_loads, py_repr = demo_repr,
                           embed_text = failing_encoder, dumps_error = demo_dumps_error\<rparr>"

section \<open>Properties of CaptionBuilder\<close>

text \<open>
  Claim C5. \<open>build_caption\<close> is a function of the ordered tag list alone: the empty
  list gives the literal \<open>photo\<close>; a single tag \<open>x\<close> gives \<open>photo of x\<close>; a list with a
  lead and at least one more tag gives \<open>photo of lead with extras\<close>, where the extras
  are the tags at indices 1 to 4 (at most four of them, so nothing after the fifth
  tag is read) joined with a comma and a space; and the list \<open>a, b, c\<close> gives
  \<open>photo of a with b, c\<close>.
\<close>

theorem build_caption_cases:
  "build_caption [] = ''photo'' \<and>
   build_caption [x] = ''photo of '' @ x \<and>
   build_caption (lead # y # ys) =
     ''photo of '' @ lead @ '' with '' @ join '', '' (take 4 (y # ys)) \<and>
   build_caption tags = build_caption (take 5 tags) \<and>
   build_caption [''a'', ''b'', ''c''] = ''photo of a with b, c''"
proof -
  have "build_caption tags = build_caption (take 5 tags)"
    by (cases tags) (simp_all add: build_caption_def take_drop)
  then show ?thesis
    by (simp add: build_caption_def)
qed

section \<open>First occurrences\<close>

lemma set_dedup_first [simp]: "set (dedup_first xs) = set xs"
  by (induction xs) auto

lemma distinct_dedup_first [simp]: "distinct (dedup_first xs)"
  by (induction xs) auto

lemma dedup_first_filter: "dedup_first (filter P xs) = filter P (dedup_first xs)"
  by (induction xs) (auto simp: filter_filter conj_commute intro: filter_cong)

lemma dedup_first_distinct: "distinct xs \<Longrightarrow> dedup_first xs = xs"
  by (induction xs) (auto simp: filter_id_conv)

section \<open>Properties of the string functions\<close>

lemma lower_char_idem: "lower_char (lower_char c) = lower_char c"
  by (auto simp: lower_char_def Let_def)

lemma py_isspace_lower_char: "py_isspace (lower_char c) = py_isspace c"
  by (auto simp: lower_char_def py_isspace_def Let_def)

lemma lower_idem: "lower (lower s) = lower s"
  by (simp add: lower_def lower_char_idem)

lemma strip_lower: "strip (lower s) = lower (strip s)"
  by (simp add: strip_def lower_def dropWhile_map rev_map comp_def py_isspace_lower_char)

lemma last_dropWhile: "dropWhile P xs \<noteq> [] \<Longrightarrow> last (dropWhile P xs) = last xs"
  by (induction xs) (auto split: if_splits)

lemma dropWhile_self: "xs = [] \<or> \<not> P (hd xs) \<Longrightarrow> dropWhile P xs = xs"
  by (cases xs) auto

lemma hd_dropWhile_not: "dropWhile P xs \<noteq> [] \<Longrightarrow> \<not> P (hd (dropWhile P xs))"
  by (simp add: hd_dropWhile)

lemma strip_idem: "strip (strip s) = strip s"
proof -
  define a where "a = dropWhile py_isspace s"
  define b where "b = dropWhile py_isspace (rev a)"
  have 1: "dropWhile py_isspace (rev b) = rev b"
  proof (cases "b = []")
    case True
    then show ?thesis by simp
  next
    case False
    then have "a \<noteq> []" by (auto simp: b_def)
    then have "\<not> py_isspace (hd a)"
      unfolding a_def by (rule hd_dropWhile_not)
    moreover have "last b = last (rev a)"
      using False unfolding b_def by (rule last_dropWhile)
    ultimately have "\<not> py_isspace (hd (rev b))"
      using False \<open>a \<noteq> []\<close> by (simp add: hd_rev last_rev)
    then show ?thesis by (intro dropWhile_self) simp
  qed
  have 2: "dropWhile py_isspace b = b"
    by (simp add: b_def)
  show ?thesis
    using 1 2 by (simp add: strip_def a_def[symmetric] b_def[symmetric])
qed

lemma norm_idem: "lower (strip (lower (strip t))) = lower (strip t)"
  by (simp add: strip_lower strip_idem lower_idem)

section \<open>Properties of TokenExtractor\<close>

lemma extract_loop_eq:
  "seen = set out \<Longrightarrow>
   extract_loop ws out seen = out @ filter (\<lambda>w. w \<notin> set out) (dedup_first (filter keep_token ws))"
proof (induction ws arbitrary: out seen)
  case Nil
  then show ?case by simp
next
  case (Cons w ws)
  show ?case
  proof (cases "keep_token w")
    case False
    then have "extract_loop (w # ws) out seen = extract_loop ws out seen"
      by (auto simp: keep_token_def)
    with False Cons show ?thesis by simp
  next
    case True
    show ?thesis
    proof (cases "w \<in> seen")
      case True
      with \<open>keep_token w\<close> have "extract_loop (w # ws) out seen = extract_loop ws out seen"
        by (auto simp: keep_token_def)
      with True \<open>keep_token w\<close> Cons show ?thesis
        by (auto simp: filter_filter intro!: filter_cong)
    next
      case False
      with \<open>keep_token w\<close> have "extract_loop (w # ws) out seen = extract_loop ws (out @ [w]) (insert w seen)"
        by (auto simp: keep_token_def)
      with False \<open>keep_token w\<close> Cons.prems Cons.IH[of "insert w seen" "out @ [w]"] show ?thesis
        by (auto simp: filter_filter intro!: filter_cong)
    qed
  qed
qed


lemma findall_nonalnum_prefix:
  "\<not> list_ex is_alnum u \<Longrightarrow> findall_alnum (u @ v) = findall_alnum v"
  by (induction u) auto

lemma findall_run_end:
  assumes "w \<noteq> []" and "list_all is_alnum w"
  shows "findall_alnum w = [w]"
proof (cases w)
  case Nil
  with assms show ?thesis by simp
next
  case (Cons a as)
  with assms have all: "\<forall>x \<in> set as. is_alnum x" and a: "is_alnum a"
    by (simp_all add: list_all_iff)
  from all have d: "dropWhile is_alnum as = []" and t: "takeWhile is_alnum as = as"
    by (simp_all only: dropWhile_eq_Nil_conv takeWhile_eq_all_conv)
  from Cons a show ?thesis by (simp add: d t)
qed

lemma findall_run_sep:
  assumes "w \<noteq> []" and "list_all is_alnum w" and "\<not> is_alnum c"
  shows "findall_alnum (w @ c # v) = w # findall_alnum (c # v)"
proof (cases w)
  case Nil
  with assms show ?thesis by simp
next
  case (Cons a as)
  with assms have "dropWhile is_alnum (as @ c # v) = c # v" "takeWhile is_alnum (as @ c # v) = as"
    by (simp_all add: takeWhile_append dropWhile_append list_all_iff)
  with Cons assms show ?thesis by simp
qed

lemma extract_tokens_eq:
  "extract_tokens caption = dedup_first (filter keep_token (findall_alnum (lower caption)))"
  by (simp add: extract_tokens_def extract_loop_eq)

text \<open>
  Claim C6. For every caption, \<open>extract_tokens\<close> lower-cases it, takes the maximal runs
  of the characters \<open>a-z\<close>, \<open>A-Z\<close>, \<open>0-9\<close> in order, drops every token of length at
  most 2 and every token of the stopword set (which holds \<open>scene\<close> and \<open>photo\<close>), and
  returns what remains with only the first occurrence of each token kept. The runs
  are maximal: characters outside the class are skipped, a run that reaches the end
  of the string is one token, and a run followed by a character outside the class
  is a token that ends there.
\<close>

theorem extract_tokens_spec:
  "extract_tokens caption = dedup_first (filter keep_token (findall_alnum (lower caption))) \<and>
   ''scene'' \<in> STOPWORDS \<and> ''photo'' \<in> STOPWORDS \<and>
   distinct (extract_tokens caption) \<and>
   set (extract_tokens caption) =
     {w \<in> set (findall_alnum (lower caption)). 2 < length w \<and> w \<notin> STOPWORDS} \<and>
   findall_alnum [] = [] \<and>
   (\<not> list_ex is_alnum u \<longrightarrow> findall_alnum (u @ v) = findall_alnum v) \<and>
   (w \<noteq> [] \<and> list_all is_alnum w \<longrightarrow> findall_alnum w = [w]) \<and>
   (w \<noteq> [] \<and> list_all is_alnum w \<and> \<not> is_alnum c \<longrightarrow>
      findall_alnum (w @ c # v) = w # findall_alnum (c # v))"
proof -
  have "set (extract_tokens caption) =
     {w \<in> set (findall_alnum (lower caption)). 2 < length w \<and> w \<notin> STOPWORDS}"
    by (auto simp: extract_tokens_eq keep_token_def)
  moreover have "''scene'' \<in> STOPWORDS" "''photo'' \<in> STOPWORDS"
    by (simp_all add: STOPWORDS_def)
  ultimately show ?thesis
    using findall_nonalnum_prefix[of u v] findall_run_end[of w] findall_run_sep[of w c v]
    by (simp add: extract_tokens_eq)
qed

theorem extract_tokens_spec_witness:
  "extract_tokens ''Photo of a Dog, dog x9 SCENE-2024'' = [''dog'', ''2024''] \<and>
   \<not> list_ex is_alnum '', '' \<and>
   findall_alnum ('', '' @ ''dog'') = findall_alnum ''dog'' \<and>
   ''dog'' \<noteq> [] \<and> list_all is_alnum ''dog'' \<and>
   findall_alnum ''dog'' = [''dog''] \<and>
   \<not> is_alnum CHR ''-'' \<and>
   findall_alnum (''dog'' @ CHR ''-'' # ''dog'') = ''dog'' # findall_alnum (CHR ''-'' # ''dog'')"
proof -
  note spec = extract_tokens_spec[where caption = "''Photo of a Dog, dog x9 SCENE-2024''"
        and u = "'', ''" and v = "''dog''" and w = "''dog''" and c = "CHR ''-''"]
  have h: "\<not> list_ex is_alnum '', ''" "''dog'' \<noteq> []" "list_all is_alnum ''dog''"
      "\<not> is_alnum CHR ''-''"
    by (simp_all add: is_alnum_def)
  have e: "dedup_first (filter keep_token
             (findall_alnum (lower ''Photo of a Dog, dog x9 SCENE-2024''))) = [''dog'', ''2024'']"
    by code_simp
  from spec have "extract_tokens ''Photo of a Dog, dog x9 SCENE-2024'' =
      dedup_first (filter keep_token (findall_alnum (lower ''Photo of a Dog, dog x9 SCENE-2024'')))"
    by (rule conjunct1)
  then have A: "extract_tokens ''Photo of a Dog, dog x9 SCENE-2024'' = [''dog'', ''2024'']"
    using e by (rule trans)
  from spec h(1) have B: "findall_alnum ('', '' @ ''dog'') = findall_alnum ''dog''"
    by blast
  from spec h(2,3) have C: "findall_alnum ''dog'' = [''dog'']"
    by blast
  from spec h(2,3,4) have D:
    "findall_alnum (''dog'' @ CHR ''-'' # ''dog'') = ''dog'' # findall_alnum (CHR ''-'' # ''dog'')"
    by blast
  from A h(1) B h(2) h(3) C h(4) D show ?thesis
    by blast
qed

section \<open>Properties of TagMerger\<close>

lemma merge_loop_eq:
  "seen = set merged \<Longrightarrow>
   merge_loop ts merged seen =
     merged @ filter (\<lambda>t. t \<notin> set merged)
                (dedup_first (filter (\<lambda>t. t \<noteq> []) (map (\<lambda>tag. lower (strip tag)) ts)))"
proof (induction ts arbitrary: merged seen)
  case Nil
  then show ?case by simp
next
  case (Cons tag ts)
  let ?t = "lower (strip tag)"
  show ?case
  proof (cases "?t = [] \<or> ?t \<in> seen")
    case True
    then have "merge_loop (tag # ts) merged seen = merge_loop ts merged seen"
      by (auto simp: Let_def)
    with True Cons show ?thesis
      by (auto simp: filter_filter intro!: filter_cong)
  next
    case False
    then have "merge_loop (tag # ts) merged seen = merge_loop ts (merged @ [?t]) (insert ?t seen)"
      by (auto simp: Let_def)
    with False Cons.prems Cons.IH[of "insert ?t seen" "merged @ [?t]"] show ?thesis
      by (auto simp: filter_filter intro!: filter_cong)
  qed
qed

lemma merge_tags_eq:
  "merge_tags tags extra =
     take 24 (dedup_first (filter (\<lambda>t. t \<noteq> []) (map (\<lambda>tag. lower (strip tag)) (tags @ extra))))"
  by (simp add: merge_tags_def merge_loop_eq)

text \<open>
  Claim C4. For every tag list \<open>T\<close> and token list \<open>E\<close>, the merged list has no two
  entries that are equal up to case, has at most 24 entries, and merging it again
  with no extra tokens gives the same sequence back.
\<close>

theorem merge_tags_unique_capped_idempotent:
  "distinct (map lower (merge_tags T E)) \<and>
   length (merge_tags T E) \<le> 24 \<and>
   merge_tags (merge_tags T E) [] = merge_tags T E"
proof -
  let ?D = "dedup_first (filter (\<lambda>t. t \<noteq> []) (map (\<lambda>tag. lower (strip tag)) (T @ E)))"
  let ?M = "merge_tags T E"
  have M: "?M = take 24 ?D" by (rule merge_tags_eq)
  have sub: "set ?M \<subseteq> set ?D" unfolding M by (rule set_take_subset)
  have norm: "lower (strip x) = x" and ne: "x \<noteq> []" and low: "lower x = x" if "x \<in> set ?M" for x
  proof -
    from that sub obtain t where x: "x = lower (strip t)" and "x \<noteq> []" by auto
    then show "lower (strip x) = x" "x \<noteq> []" "lower x = x"
      by (simp_all add: norm_idem lower_idem)
  qed
  have dist: "distinct ?M" unfolding M by (simp add: distinct_take)
  have len: "length ?M \<le> 24" unfolding M by simp
  have "map (\<lambda>tag. lower (strip tag)) ?M = ?M"
    by (rule map_idI) (rule norm)
  moreover have "filter (\<lambda>t. t \<noteq> []) ?M = ?M"
    using ne by (simp add: filter_id_conv)
  moreover have "map lower ?M = ?M"
    by (rule map_idI) (rule low)
  ultimately show ?thesis
    using dist len by (simp add: merge_tags_eq[of ?M "[]"] dedup_first_distinct)
qed

section \<open>Properties of TagSelector\<close>

subsection \<open>What an admissible index order determines\<close>

lemma argsort_mset:
  assumes "is_argsort_descending probs idx"
  shows "mset idx = mset [0 ..< length probs]"
proof -
  have "mset idx = mset (sort idx)" by simp
  with assms show ?thesis by (simp only: is_argsort_descending_def)
qed

lemma argsort_set:
  assumes "is_argsort_descending probs idx"
  shows "set idx = {0 ..< length probs}" and "distinct idx" and "length idx = length probs"
proof -
  note m = argsort_mset[OF assms]
  from m have "set_mset (mset idx) = set_mset (mset [0 ..< length probs])" by simp
  then show "set idx = {0 ..< length probs}" by simp
  from m have "distinct idx = distinct [0 ..< length probs]" by (rule mset_eq_imp_distinct_iff)
  then show "distinct idx" by simp
  from m have "size (mset idx) = size (mset [0 ..< length probs])" by simp
  then show "length idx = length probs" by simp
qed

lemma stable_argsort_is_argsort: "is_argsort_descending probs (stable_argsort probs)"
proof -
  have "sorted (map (\<lambda>i. - (probs ! i)) (stable_argsort probs))"
    by (simp add: stable_argsort_def)
  then have "sorted_wrt (\<lambda>i j. probs ! i \<ge> probs ! j) (stable_argsort probs)"
    by (simp add: sorted_map)
  moreover have "sort (stable_argsort probs) = [0 ..< length probs]"
    by (rule properties_for_sort) (simp_all add: stable_argsort_def)
  ultimately show ?thesis by (simp add: is_argsort_descending_def)
qed

subsection \<open>The selection loop\<close>

lemma select_loop_soft:
  assumes "5 \<le> length sel" and "\<forall>i \<in> set rest. i < length probs \<and> i < length labels"
  shows "select_loop labels probs rest sel =
     Inr (sel @ map (\<lambda>i. (labels ! i, probs ! i))
                  (take (TOP_K - length sel) (takeWhile (\<lambda>i. \<not> probs ! i < MIN_SCORE) rest)))"
  using assms
proof (induction rest arbitrary: sel)
  case Nil
  then show ?case by simp
next
  case (Cons x rest)
  show ?case
  proof (cases "TOP_K \<le> length sel \<or> probs ! x < MIN_SCORE")
    case True
    with Cons.prems show ?thesis by (auto simp: Let_def)
  next
    case False
    with Cons.prems have
      "select_loop labels probs (x # rest) sel =
         select_loop labels probs rest (sel @ [(labels ! x, probs ! x)])"
      by (simp add: Let_def)
    also have "\<dots> = Inr ((sel @ [(labels ! x, probs ! x)]) @ map (\<lambda>i. (labels ! i, probs ! i))
        (take (TOP_K - length (sel @ [(labels ! x, probs ! x)]))
           (takeWhile (\<lambda>i. \<not> probs ! i < MIN_SCORE) rest)))"
      using Cons.prems by (intro Cons.IH) simp_all
    also have "\<dots> = Inr (sel @ map (\<lambda>i. (labels ! i, probs ! i))
        (take (TOP_K - length sel) (takeWhile (\<lambda>i. \<not> probs ! i < MIN_SCORE) (x # rest))))"
      using False by (simp add: take_Cons' )
    finally show ?thesis .
  qed
qed

lemma select_loop_forced:
  assumes "length sel \<le> 5" and "\<forall>i \<in> set rest. i < length probs \<and> i < length labels"
  shows "select_loop labels probs rest sel =
     Inr (sel @ map (\<lambda>i. (labels ! i, probs ! i)) (take (5 - length sel) rest)
              @ map (\<lambda>i. (labels ! i, probs ! i))
                  (take 7 (takeWhile (\<lambda>i. \<not> probs ! i < MIN_SCORE) (drop (5 - length sel) rest))))"
  using assms
proof (induction rest arbitrary: sel)
  case Nil
  then show ?case by simp
next
  case (Cons x rest)
  show ?case
  proof (cases "length sel = 5")
    case True
    with Cons.prems(2) show ?thesis
      by (simp add: select_loop_soft TOP_K_def del: select_loop.simps)
  next
    case False
    with Cons.prems have lt: "length sel < 5" by simp
    with Cons.prems have
      "select_loop labels probs (x # rest) sel =
         select_loop labels probs rest (sel @ [(labels ! x, probs ! x)])"
      by (simp add: Let_def TOP_K_def)
    also have "\<dots> = Inr ((sel @ [(labels ! x, probs ! x)]) @
        map (\<lambda>i. (labels ! i, probs ! i)) (take (5 - length (sel @ [(labels ! x, probs ! x)])) rest) @
        map (\<lambda>i. (labels ! i, probs ! i))
          (take 7 (takeWhile (\<lambda>i. \<not> probs ! i < MIN_SCORE)
             (drop (5 - length (sel @ [(labels ! x, probs ! x)])) rest))))"
      using Cons.prems lt by (intro Cons.IH) simp_all
    also have "\<dots> = Inr (sel @ map (\<lambda>i. (labels ! i, probs ! i)) (take (5 - length sel) (x # rest))
              @ map (\<lambda>i. (labels ! i, probs ! i))
                  (take 7 (takeWhile (\<lambda>i. \<not> probs ! i < MIN_SCORE) (drop (5 - length sel) (x # rest)))))"
      using lt by (simp add: take_Cons' drop_Cons')
    finally show ?thesis .
  qed
qed

lemma take_selected_count:
  "take 5 idx @ take 7 (takeWhile P (drop 5 idx)) =
   take (min (length idx) (min 12 (5 + length (takeWhile P (drop 5 idx))))) idx"
proof -
  let ?m = "length (takeWhile P (drop 5 idx))"
  have "takeWhile P (drop 5 idx) = take ?m (drop 5 idx)"
    by (rule takeWhile_eq_take)
  then have "take 7 (takeWhile P (drop 5 idx)) = take (min 7 ?m) (drop 5 idx)"
    by (metis take_take)
  then have "take 5 idx @ take 7 (takeWhile P (drop 5 idx)) = take (5 + min 7 ?m) idx"
    by (simp add: take_add)
  also have "\<dots> = take (min (length idx) (5 + min 7 ?m)) idx"
    by (simp add: min_def)
  also have "5 + min 7 ?m = min 12 (5 + ?m)" by simp
  finally show ?thesis .
qed

lemma select_eq:
  assumes "is_argsort_descending probs idx" and "length labels = length probs"
  shows "select labels probs idx =
     Inr (map (\<lambda>i. (labels ! i, probs ! i)) (take (selected_count probs idx) idx))"
proof -
  from assms have "\<forall>i \<in> set idx. i < length probs \<and> i < length labels"
    by (simp add: argsort_set(1))
  then have "select labels probs idx =
     Inr (map (\<lambda>i. (labels ! i, probs ! i))
            (take 5 idx @ take 7 (takeWhile (\<lambda>i. \<not> probs ! i < MIN_SCORE) (drop 5 idx))))"
    by (simp add: select_def select_loop_forced)
  then show ?thesis
    by (simp only: take_selected_count selected_count_def TOP_K_def)
qed

lemma selected_count_bounds:
  "min 5 (length idx) \<le> selected_count probs idx" "selected_count probs idx \<le> TOP_K"
  by (auto simp: selected_count_def TOP_K_def min_def)

text \<open>
  Claim C3. For every score sequence over a vocabulary of size \<open>n\<close>, TagSelector
  returns (without raising) between \<open>min 5 n\<close> and \<open>TOP_K = 12\<close> tags, listed in
  non-increasing score order: the tags are the first \<open>selected_count\<close> candidates of
  the sorted order, so the loop stops once 12 are appended and, from the sixth
  candidate on, before the first whose score is below \<open>MIN_SCORE\<close>; at least 5 tags
  are produced whenever \<open>n \<ge> 5\<close>.
\<close>

theorem select_count_and_order:
  assumes "is_argsort_descending probs sorted_idx" and "length labels = length probs"
  shows "select labels probs sorted_idx =
           Inr (map (\<lambda>i. (labels ! i, probs ! i)) (take (selected_count probs sorted_idx) sorted_idx)) \<and>
         min 5 (length probs) \<le> selected_count probs sorted_idx \<and>
         selected_count probs sorted_idx \<le> TOP_K \<and> TOP_K = 12 \<and>
         sorted_wrt (\<lambda>a b. snd a \<ge> snd b)
           (map (\<lambda>i. (labels ! i, probs ! i)) (take (selected_count probs sorted_idx) sorted_idx)) \<and>
         (5 \<le> length probs \<longrightarrow> 5 \<le> selected_count probs sorted_idx)"
proof -
  have len: "length sorted_idx = length probs" by (rule argsort_set(3)[OF assms(1)])
  from assms(1) have "sorted_wrt (\<lambda>i j. probs ! i \<ge> probs ! j) sorted_idx"
    by (simp add: is_argsort_descending_def)
  then have "sorted_wrt (\<lambda>i j. probs ! i \<ge> probs ! j) (take (selected_count probs sorted_idx) sorted_idx)"
    by (rule sorted_wrt_take)
  then have "sorted_wrt (\<lambda>a b. snd a \<ge> snd b)
           (map (\<lambda>i. (labels ! i, probs ! i)) (take (selected_count probs sorted_idx) sorted_idx))"
    by (simp add: sorted_wrt_map)
  moreover have "min 5 (length probs) \<le> selected_count probs sorted_idx"
    using selected_count_bounds(1)[of sorted_idx probs] len by simp
  moreover note selected_count_bounds(2)[of probs sorted_idx] select_eq[OF assms]
  ultimately show ?thesis by (auto simp: TOP_K_def)
qed

theorem select_count_and_order_witness:
  "is_argsort_descending [1/2, 1/5, 1/10, 1/10, 1/20, 1/25, 1/100] [0, 1, 2, 3, 4, 5, 6] \<and>
   length (take 7 CANDIDATE_TAGS) = length [1/2, 1/5, 1/10, 1/10, 1/20, 1/25, 1/100 :: real] \<and>
   select (take 7 CANDIDATE_TAGS) [1/2, 1/5, 1/10, 1/10, 1/20, 1/25, 1/100] [0, 1, 2, 3, 4, 5, 6] =
     Inr [(''person'', 1/2), (''people'', 1/5), (''man'', 1/10), (''woman'', 1/10),
          (''child'', 1/20), (''baby'', 1/25)] \<and>
   selected_count [1/2, 1/5, 1/10, 1/10, 1/20, 1/25, 1/100] [0, 1, 2, 3, 4, 5, 6] = 6 \<and>
   5 \<le> length [1/2, 1/5, 1/10, 1/10, 1/20, 1/25, 1/100 :: real]"
proof -
  have h: "is_argsort_descending [1/2, 1/5, 1/10, 1/10, 1/20, 1/25, 1/100] [0, 1, 2, 3, 4, 5, 6]"
    by (simp add: is_argsort_descending_def upt_rec)
  have l: "length (take 7 CANDIDATE_TAGS) = length [1/2, 1/5, 1/10, 1/10, 1/20, 1/25, 1/100 :: real]"
    by (simp add: CANDIDATE_TAGS_def)
  have c: "selected_count [1/2, 1/5, 1/10, 1/10, 1/20, 1/25, 1/100] [0, 1, 2, 3, 4, 5, 6] = 6"
    by (simp add: selected_count_def TOP_K_def MIN_SCORE_def)
  have m: "map (\<lambda>i. (take 7 CANDIDATE_TAGS ! i, [1/2, 1/5, 1/10, 1/10, 1/20, 1/25, 1/100 :: real] ! i))
              (take 6 [0, 1, 2, 3, 4, 5, 6]) =
     [(''person'', 1/2), (''people'', 1/5), (''man'', 1/10), (''woman'', 1/10),
          (''child'', 1/20), (''baby'', 1/25)]"
    by (simp add: CANDIDATE_TAGS_def)
  from select_count_and_order[OF h l] have
    "select (take 7 CANDIDATE_TAGS) [1/2, 1/5, 1/10, 1/10, 1/20, 1/25, 1/100] [0, 1, 2, 3, 4, 5, 6] =
      Inr (map (\<lambda>i. (take 7 CANDIDATE_TAGS ! i, [1/2, 1/5, 1/10, 1/10, 1/20, 1/25, 1/100 :: real] ! i))
              (take (selected_count [1/2, 1/5, 1/10, 1/10, 1/20, 1/25, 1/100] [0, 1, 2, 3, 4, 5, 6])
                 [0, 1, 2, 3, 4, 5, 6]))"
    by (rule conjunct1)
  then have s: "select (take 7 CANDIDATE_TAGS) [1/2, 1/5, 1/10, 1/10, 1/20, 1/25, 1/100] [0, 1, 2, 3, 4, 5, 6] =
     Inr [(''person'', 1/2), (''people'', 1/5), (''man'', 1/10), (''woman'', 1/10),
          (''child'', 1/20), (''baby'', 1/25)]"
    by (simp only: c m)
  have "5 \<le> length [1/2, 1/5, 1/10, 1/10, 1/20, 1/25, 1/100 :: real]" by simp
  with h l s c show ?thesis by blast
qed

section \<open>Properties of RequestServer\<close>

lemma main_loop_out:
  "main_loop ext reads out = (out @ fst (main_loop ext reads []), snd (main_loop ext reads []))"
proof (induction reads arbitrary: out)
  case Nil
  show ?case by simp
next
  case (Cons r reads)
  show ?case
  proof (cases r)
    case (Line line)
    have "main_loop ext reads (out @ handle_line ext line) =
        ((out @ handle_line ext line) @ fst (main_loop ext reads []), snd (main_loop ext reads []))"
      by (rule Cons.IH)
    moreover have "main_loop ext reads ([] @ handle_line ext line) =
        (([] @ handle_line ext line) @ fst (main_loop ext reads []), snd (main_loop ext reads []))"
      by (rule Cons.IH)
    ultimately show ?thesis using Line by simp
  next
    case (ReadRaises exc)
    then show ?thesis by simp
  qed
qed

lemma main_loop_lines:
  "main_loop ext (map Line ls @ rest) out =
     main_loop ext rest (out @ concat (map (handle_line ext) ls))"
  by (induction ls arbitrary: out) simp_all

lemma server_main_lines:
  "server_main ext (map Line ls) = (concat (map (handle_line ext) ls), Returned 0)"
  using main_loop_lines[of ext ls "[]" "[]"] by (simp add: server_main_def)

lemma server_main_append:
  "server_main ext (map Line before @ Line raw # rest) =
     (fst (server_main ext (map Line before)) @ handle_line ext raw @ fst (server_main ext rest),
      snd (server_main ext rest))"
proof -
  have "server_main ext (map Line before @ Line raw # rest) =
      main_loop ext rest (concat (map (handle_line ext) before) @ handle_line ext raw)"
    by (simp add: server_main_def main_loop_lines)
  also have "\<dots> = ((concat (map (handle_line ext) before) @ handle_line ext raw)
        @ fst (main_loop ext rest []), snd (main_loop ext rest []))"
    by (rule main_loop_out)
  finally show ?thesis
    by (simp add: server_main_lines) (simp add: server_main_def)
qed

lemma handle_line_try:
  assumes "strip raw \<noteq> []"
  shows "handle_line ext raw =
     (case try_body ext (strip raw) of Inr r \<Rightarrow> [r] | Inl exc \<Rightarrow> [ErrorResp JNull exc])"
  using assms by (simp add: handle_line_def Let_def)

lemma try_body_dict:
  assumes "json_loads ext line = Inr (JObj d)"
  shows "try_body ext line =
     (if request_query ext d = [] then write_message ext (ErrorResp (dict_get d ''id'' JNull) ''empty query'')
      else (case embed_text ext (request_query ext d) of
              Inl exc \<Rightarrow> Inl exc
            | Inr vector \<Rightarrow> write_message ext (VectorResp (dict_get d ''id'' JNull) vector)))"
  using assms by (simp add: try_body_def Let_def)


lemma handle_line_non_dict:
  assumes "strip raw \<noteq> []" and "json_loads ext (strip raw) = Inr v" and "\<not> is_dict v"
  shows "handle_line ext raw = [ErrorResp JNull (attribute_error v)]"
  using assms by (cases v) (simp_all add: handle_line_def try_body_def Let_def)

lemma strip_None: "strip ''None'' = ''None''"
  by (simp add: strip_def py_isspace_def)

lemma demo_answer:
  \<open>handle_line demo_server ''{"id":1,"q":"sunset over water"}'' = [VectorResp (JInt 1) [3/5, 4/5]]\<close>
  by (simp add: handle_line_def try_body_def write_message_def request_query_def
        demo_server_def demo_loads_def unit_encoder_def demo_dumps_error_def
        strip_def py_isspace_def dict_get_def Let_def)

lemma demo_answers:
  \<open>fst (server_main demo_server [Line ''{"id":1,"q":"sunset over water"}'']) =
      [VectorResp (JInt 1) [3/5, 4/5]]\<close>
  \<open>snd (server_main demo_server [Line ''{"id":1,"q":"sunset over water"}'']) = Returned 0\<close>
  "fst (server_main demo_server (map Line [])) = []"
  by (simp_all add: server_main_def demo_answer)




text \<open>
  Claim C10. For every input line that is valid JSON but not an object, the server
  emits one error response with a null id (the shape of a parse error), carrying the
  text of the \<open>AttributeError\<close> that reading a field raises, and goes on with the
  next line.
\<close>

theorem non_object_line_reported:
  assumes "strip raw \<noteq> []" and "json_loads ext (strip raw) = Inr v" and "\<not> is_dict v"
  shows "handle_line ext raw = [ErrorResp JNull (attribute_error v)] \<and>
         server_main ext (map Line before @ Line raw # rest) =
           (fst (server_main ext (map Line before)) @ [ErrorResp JNull (attribute_error v)]
              @ fst (server_main ext rest),
            snd (server_main ext rest)) \<and>
         server_main ext (map Line before @ Line raw # map Line after) =
           (fst (server_main ext (map Line before)) @ [ErrorResp JNull (attribute_error v)]
              @ fst (server_main ext (map Line after)),
            Returned 0)"
  using handle_line_non_dict[OF assms]
  by (simp add: server_main_append) (simp add: server_main_lines)

theorem non_object_line_reported_witness:
  \<open>strip ''[1, 2]'' \<noteq> [] \<and>
   json_loads demo_server (strip ''[1, 2]'') = Inr (JArr [JInt 1, JInt 2]) \<and>
   \<not> is_dict (JArr [JInt 1, JInt 2]) \<and>
   handle_line demo_server ''[1, 2]'' =
     [ErrorResp JNull ([CHR 0x27] @ ''list'' @ [CHR 0x27] @ '' object has no attribute ''
                       @ [CHR 0x27] @ ''get'' @ [CHR 0x27])] \<and>
   server_main demo_server
       (map Line [] @ Line ''[1, 2]'' # [Line ''{"id":1,"q":"sunset over water"}'']) =
     ([ErrorResp JNull ([CHR 0x27] @ ''list'' @ [CHR 0x27] @ '' object has no attribute ''
                       @ [CHR 0x27] @ ''get'' @ [CHR 0x27]),
       VectorResp (JInt 1) [3/5, 4/5]], Returned 0)\<close>
proof -
  have s: "strip ''[1, 2]'' = ''[1, 2]''"
    by (simp add: strip_def py_isspace_def)
  have h1: "strip ''[1, 2]'' \<noteq> []" by (simp add: s)
  have h2: "json_loads demo_server (strip ''[1, 2]'') = Inr (JArr [JInt 1, JInt 2])"
    by (simp add: s demo_server_def demo_loads_def)
  have h3: "\<not> is_dict (JArr [JInt 1, JInt 2])" by simp
  have e: "attribute_error (JArr [JInt 1, JInt 2]) =
      [CHR 0x27] @ ''list'' @ [CHR 0x27] @ '' object has no attribute ''
                       @ [CHR 0x27] @ ''get'' @ [CHR 0x27]"
    by (simp add: attribute_error_def)
  note t = non_object_line_reported[OF h1 h2 h3, where before = "[]"
      and rest = \<open>[Line ''{"id":1,"q":"sunset over water"}'']\<close>]
  from t have 1: "handle_line demo_server ''[1, 2]'' = [ErrorResp JNull (attribute_error (JArr [JInt 1, JInt 2]))]"
    by (rule conjunct1)
  from t have 2: \<open>server_main demo_server
       (map Line [] @ Line ''[1, 2]'' # [Line ''{"id":1,"q":"sunset over water"}'']) =
     (fst (server_main demo_server (map Line [])) @ [ErrorResp JNull (attribute_error (JArr [JInt 1, JInt 2]))]
        @ fst (server_main demo_server [Line ''{"id":1,"q":"sunset over water"}'']),
      snd (server_main demo_server [Line ''{"id":1,"q":"sunset over water"}'']))\<close>
    by blast
  from h1 h2 h3 1 2 show ?thesis
    by (simp only: demo_answers e append_Nil append_Cons simp_thms)
qed

text \<open>
  Claim C9, as amended. For every request line that is a JSON object whose \<open>q\<close> field
  is null, the empty-query branch is not taken: \<open>str\<close> turns the null into the
  non-empty string \<open>None\<close>, so the query is \<open>None\<close> and what the \<open>try\<close> block does is
  call the encoder on it and write the vector it returns. When the encoder answers
  and the response is encoded, a vector response with the request's id is emitted.
\<close>

theorem null_query_reaches_encoder:
  assumes "strip raw \<noteq> []" and "json_loads ext (strip raw) = Inr (JObj d)"
    and "map_of d ''q'' = Some JNull"
  shows "request_query ext d = ''None'' \<and>
         try_body ext (strip raw) =
           (case embed_text ext ''None'' of
              Inl exc \<Rightarrow> Inl exc
            | Inr vector \<Rightarrow> write_message ext (VectorResp (dict_get d ''id'' JNull) vector)) \<and>
         (embed_text ext ''None'' = Inr vector \<and> dumps_error ext (dict_get d ''id'' JNull) = None
            \<longrightarrow> handle_line ext raw = [VectorResp (dict_get d ''id'' JNull) vector])"
proof -
  from assms(3) have q: "request_query ext d = ''None''"
    by (simp add: request_query_def dict_get_def strip_None)
  then have t: "try_body ext (strip raw) =
           (case embed_text ext ''None'' of
              Inl exc \<Rightarrow> Inl exc
            | Inr vector \<Rightarrow> write_message ext (VectorResp (dict_get d ''id'' JNull) vector))"
    by (simp add: try_body_dict[OF assms(2)])
  have "handle_line ext raw = [VectorResp (dict_get d ''id'' JNull) vector]"
    if "embed_text ext ''None'' = Inr vector" and "dumps_error ext (dict_get d ''id'' JNull) = None"
    using that by (simp add: handle_line_try[OF assms(1)] t write_message_def)
  with q t show ?thesis by blast
qed

theorem null_query_reaches_encoder_witness:
  \<open>strip ''{"id":7,"q":null}'' \<noteq> [] \<and>
   json_loads demo_server (strip ''{"id":7,"q":null}'') = Inr (JObj [(''id'', JInt 7), (''q'', JNull)]) \<and>
   map_of [(''id'', JInt 7), (''q'', JNull)] ''q'' = Some JNull \<and>
   request_query demo_server [(''id'', JInt 7), (''q'', JNull)] = ''None'' \<and>
   embed_text demo_server ''None'' = Inr [3/5, 4/5] \<and>
   dumps_error demo_server (JInt 7) = None \<and>
   handle_line demo_server ''{"id":7,"q":null}'' = [VectorResp (JInt 7) [3/5, 4/5]]\<close>
proof -
  have s: \<open>strip ''{"id":7,"q":null}'' = ''{"id":7,"q":null}''\<close>
    by (simp add: strip_def py_isspace_def)
  have h1: \<open>strip ''{"id":7,"q":null}'' \<noteq> []\<close> by (simp add: s)
  have h2: \<open>json_loads demo_server (strip ''{"id":7,"q":null}'') =
      Inr (JObj [(''id'', JInt 7), (''q'', JNull)])\<close>
    by (simp add: s demo_server_def demo_loads_def)
  have h3: "map_of [(''id'', JInt 7), (''q'', JNull)] ''q'' = Some JNull" by simp
  have e: "embed_text demo_server ''None'' = Inr [3/5, 4/5]"
    by (simp add: demo_server_def unit_encoder_def)
  have i: "dict_get [(''id'', JInt 7), (''q'', JNull)] ''id'' JNull = JInt 7"
    by (simp add: dict_get_def)
  have w: "dumps_error demo_server (JInt 7) = None"
    by (simp add: demo_server_def demo_dumps_error_def)
  note t = null_query_reaches_encoder[OF h1 h2 h3, where vector = "[3/5, 4/5]"]
  from t have q: "request_query demo_server [(''id'', JInt 7), (''q'', JNull)] = ''None''"
    by (rule conjunct1)
  from t e w i have \<open>handle_line demo_server ''{"id":7,"q":null}'' = [VectorResp (JInt 7) [3/5, 4/5]]\<close>
    by (simp only: simp_thms)
  with h1 h2 h3 q e w show ?thesis by blast
qed

text \<open>
  The claim as stated fails where it says that a response is emitted for the
  request's id also when the encoding fails: for the line with id 7 and an encoder
  that raises, the response emitted does not carry the id 7.
\<close>

theorem null_query_failure_counterexample:
  \<open>json_loads demo_server_failing (strip ''{"id":7,"q":null}'') =
      Inr (JObj [(''id'', JInt 7), (''q'', JNull)]) \<and>
   embed_text demo_server_failing ''None'' = Inl ''out of memory'' \<and>
   handle_line demo_server_failing ''{"id":7,"q":null}'' = [ErrorResp JNull ''out of memory''] \<and>
   ErrorResp JNull ''out of memory'' \<noteq> ErrorResp (JInt 7) ''out of memory''\<close>
  by (simp add: handle_line_def try_body_def request_query_def demo_server_failing_def
        demo_loads_def failing_encoder_def strip_def py_isspace_def dict_get_def Let_def)

text \<open>
  Claim C1. The specification has the server answer a failed encoding with an error
  response that carries the request's id, as its two other answers to a parsed
  request do. The code does not: the request with id 1 and query
  \<open>sunset over water\<close>, with an encoder that raises, is answered by the catch-all
  handler, which writes a null id although \<open>req_id\<close> is bound by then.
\<close>

theorem encoding_failure_drops_id:
  \<open>json_loads demo_server_failing (strip ''{"id":1,"q":"sunset over water"}'') =
     Inr (JObj [(''id'', JInt 1), (''q'', JStr ''sunset over water'')]) \<and>
   dict_get [(''id'', JInt 1), (''q'', JStr ''sunset over water'')] ''id'' JNull = JInt 1 \<and>
   request_query demo_server_failing [(''id'', JInt 1), (''q'', JStr ''sunset over water'')] =
     ''sunset over water'' \<and>
   embed_text demo_server_failing ''sunset over water'' = Inl ''out of memory'' \<and>
   handle_line demo_server_failing ''{"id":1,"q":"sunset over water"}'' =
     [ErrorResp JNull ''out of memory''] \<and>
   ErrorResp JNull ''out of memory'' \<noteq> ErrorResp (JInt 1) ''out of memory''\<close>
  by (simp add: handle_line_def try_body_def request_query_def demo_server_failing_def
        demo_loads_def failing_encoder_def strip_def py_isspace_def dict_get_def Let_def)

end
